theory Spec2Isabelle
  imports Main
begin

section \<open>Data model\<close>

text \<open>
  JavaScript values as far as the link UI reads them: the fields of a link value and the
  attributes of a format are strings, booleans, numbers, \<open>null\<close> or \<open>undefined\<close>.
\<close>

datatype jsval = Undefined | Null | JBool bool | JStr string | JNum int

text \<open>
  A format is an object \<open>{type, attributes}\<close>. The source compares formats with
  \<open>===\<close>, that is by object identity, so every format carries the identity of its
  object in \<open>ident\<close>: two separately constructed formats with the same type and the
  same attributes differ in \<open>ident\<close>, and \<open>===\<close> is equality of the whole record.
\<close>

record format =
  ident :: nat
  ftype :: string
  attributes :: "(string \<times> jsval) list"

text \<open>
  A rich text value. \<open>formats\<close> is a sparse JavaScript array with one slot per
  character: a slot is \<open>undefined\<close> (\<open>None\<close>) or the array of the formats applied to
  that character. \<open>vtext\<close>, \<open>vstart\<close> and \<open>vend\<close> are the fields \<open>text\<close>,
  \<open>start\<close> and \<open>end\<close>: the characters and the selection.
\<close>

record rich_text_value =
  formats :: "format list option list"
  vtext :: string
  vstart :: int
  vend :: int
  activeFormats :: "format list"

text \<open>The result \<open>{start, end}\<close> of the boundary search; \<open>None\<close> is \<open>null\<close>.\<close>

record boundary =
  bstart :: "int option"
  bend :: "int option"

section \<open>Boundary locator\<close>

text \<open>
  \<open>xs[i]\<close> on a JavaScript array: \<open>undefined\<close> (\<open>None\<close>) when \<open>i\<close> is negative or
  not below the length.
\<close>

definition js_index :: "'a list \<Rightarrow> int \<Rightarrow> 'a option" where
  "js_index xs i = (if 0 \<le> i \<and> i < int (length xs) then Some (xs ! nat i) else None)"

text \<open>\<open>newFormats[i]\<close>: the format array of character \<open>i\<close>, \<open>None\<close> for a hole or an
  index outside the array.\<close>

definition formats_at :: "format list option list \<Rightarrow> int \<Rightarrow> format list option" where
  "formats_at fmts i = (case js_index fmts i of Some (Some l) \<Rightarrow> Some l | _ \<Rightarrow> None)"

text \<open>\<open>Array.prototype.indexOf\<close>: the first position holding the very object, or \<open>-1\<close>.\<close>

fun indexOf :: "'a list \<Rightarrow> 'a \<Rightarrow> int" where
  "indexOf [] x = - 1"
| "indexOf (y # ys) x =
     (if y = x then 0 else (let r = indexOf ys x in if r < 0 then - 1 else r + 1))"

text \<open>
  The loop conditions \<open>newFormats[i] && newFormats[i][index] === startFormat\<close>.
\<close>

definition same_format_at :: "format list option list \<Rightarrow> int \<Rightarrow> format \<Rightarrow> int \<Rightarrow> bool" where
  "same_format_at newFormats index startFormat i =
     (case formats_at newFormats i of
        None \<Rightarrow> False
      | Some l \<Rightarrow> js_index l index = Some startFormat)"

text \<open>The first loop: \<open>while (...) startIndex--\<close>; the result is the final \<open>startIndex\<close>.\<close>

function walk_backwards :: "format list option list \<Rightarrow> int \<Rightarrow> format \<Rightarrow> int \<Rightarrow> int" where
  "walk_backwards newFormats index startFormat startIndex =
     (if same_format_at newFormats index startFormat startIndex
      then walk_backwards newFormats index startFormat (startIndex - 1)
      else startIndex)"
  by pat_completeness auto
termination
  by (relation "measure (\<lambda>(newFormats, index, startFormat, startIndex). nat (startIndex + 1))")
     (auto simp: same_format_at_def formats_at_def js_index_def split: option.splits if_splits)

text \<open>The second loop: \<open>while (...) endIndex++\<close>; the result is the final \<open>endIndex\<close>.\<close>

function walk_forwards :: "format list option list \<Rightarrow> int \<Rightarrow> format \<Rightarrow> int \<Rightarrow> int" where
  "walk_forwards newFormats index startFormat endIndex =
     (if same_format_at newFormats index startFormat endIndex
      then walk_forwards newFormats index startFormat (endIndex + 1)
      else endIndex)"
  by pat_completeness auto
termination
  by (relation "measure (\<lambda>(newFormats, index, startFormat, endIndex). nat (int (length newFormats) - endIndex))")
     (auto simp: same_format_at_def formats_at_def js_index_def split: option.splits if_splits)

declare walk_backwards.simps [simp del] walk_forwards.simps [simp del]

text \<open>
  \<open>getFormatBoundary(value, format, startIndex, endIndex)\<close>. Only \<open>format.type\<close> is
  read, so the format argument is its type \<open>ty\<close>. lodash's \<open>find\<close> with the pattern
  \<open>{type: ty}\<close> is the first element whose type is \<open>ty\<close>, and \<open>undefined\<close> on an
  \<open>undefined\<close> collection. No step of the function can throw: \<open>indexOf\<close> is called on
  \<open>newFormats[startIndex]\<close> only after \<open>find\<close> has returned an element of it.
\<close>

definition getFormatBoundary :: "rich_text_value \<Rightarrow> string \<Rightarrow> int \<Rightarrow> int \<Rightarrow> boundary" where
  "getFormatBoundary v ty startIndex endIndex =
     (let newFormats = formats v in
      case formats_at newFormats startIndex of
        None \<Rightarrow> \<lparr>bstart = None, bend = None\<rparr>
      | Some l \<Rightarrow>
          (case List.find (\<lambda>f. ftype f = ty) l of
             None \<Rightarrow> \<lparr>bstart = None, bend = None\<rparr>
           | Some startFormat \<Rightarrow>
               (let index = indexOf l startFormat;
                    startIndex' = walk_backwards newFormats index startFormat startIndex;
                    endIndex' = walk_forwards newFormats index startFormat (endIndex + 1)
                in \<lparr>bstart = Some (startIndex' + 1), bend = Some endIndex'\<rparr>)))"

text \<open>The call with the default arguments \<open>startIndex = value.start\<close>,
  \<open>endIndex = value.end\<close>.\<close>

definition getFormatBoundary_default :: "rich_text_value \<Rightarrow> string \<Rightarrow> boundary" where
  "getFormatBoundary_default v ty = getFormatBoundary v ty (vstart v) (vend v)"

text \<open>The formats a character carries, as a list: empty where the slot is \<open>undefined\<close>.\<close>

definition formats_of :: "rich_text_value \<Rightarrow> int \<Rightarrow> format list" where
  "formats_of v i = (case formats_at (formats v) i of None \<Rightarrow> [] | Some l \<Rightarrow> l)"

text \<open>
  The positioned run the two loops recognise: every character of \<open>[s, e)\<close> holds the
  format \<open>f\<close> at position \<open>k\<close> of its format list, and the characters at \<open>s - 1\<close>
  and at \<open>e\<close> do not.
\<close>

definition run_at :: "rich_text_value \<Rightarrow> format \<Rightarrow> int \<Rightarrow> int \<Rightarrow> int \<Rightarrow> bool" where
  "run_at v f k s e \<longleftrightarrow>
     (\<forall>i \<in> set [s..e - 1]. js_index (formats_of v i) k = Some f) \<and>
     js_index (formats_of v (s - 1)) k \<noteq> Some f \<and>
     js_index (formats_of v e) k \<noteq> Some f"

text \<open>
  A run in the sense of the specification: every character of \<open>[s, e)\<close> carries the
  format instance \<open>f\<close> somewhere in its format list, and the characters at \<open>s - 1\<close> and
  at \<open>e\<close> do not carry it.
\<close>

definition carried_run :: "rich_text_value \<Rightarrow> format \<Rightarrow> int \<Rightarrow> int \<Rightarrow> bool" where
  "carried_run v f s e \<longleftrightarrow>
     (\<forall>i \<in> set [s..e - 1]. f \<in> set (formats_of v i)) \<and>
     f \<notin> set (formats_of v (s - 1)) \<and> f \<notin> set (formats_of v e)"

text \<open>No character carries two formats of type \<open>ty\<close>.\<close>

definition one_per_type :: "rich_text_value \<Rightarrow> string \<Rightarrow> bool" where
  "one_per_type v ty \<longleftrightarrow>
     (\<forall>slot \<in> set (formats v). case slot of None \<Rightarrow> True
        | Some l \<Rightarrow> length (filter (\<lambda>g. ftype g = ty) l) \<le> 1)"




section \<open>JavaScript objects\<close>

text \<open>
  A link value, the pending settings and the attributes of the active format are plain
  objects. An object is the list of its own properties, the first entry for a key being
  its value; reading a property the object does not have gives \<open>undefined\<close>.
\<close>

type_synonym obj = "(string \<times> jsval) list"

definition get :: "obj \<Rightarrow> string \<Rightarrow> jsval" where
  "get ob k = (case map_of ob k of None \<Rightarrow> Undefined | Some x \<Rightarrow> x)"

text \<open>The object literal \<open>{...a, ...b}\<close>: a property of \<open>b\<close> overrides the one of
  \<open>a\<close>, also when its value is \<open>undefined\<close>.\<close>

definition spread :: "obj \<Rightarrow> obj \<Rightarrow> obj" where
  "spread a b = b @ a"

text \<open>The state \<open>nextLinkValue\<close> is \<open>undefined\<close> or an object; spreading \<open>undefined\<close>
  adds no property.\<close>

definition state_obj :: "obj option \<Rightarrow> obj" where
  "state_obj n = (case n of None \<Rightarrow> [] | Some ob \<Rightarrow> ob)"

fun truthy :: "jsval \<Rightarrow> bool" where
  "truthy Undefined = False"
| "truthy Null = False"
| "truthy (JBool b) = b"
| "truthy (JStr s) = (s \<noteq> [])"
| "truthy (JNum n) = (n \<noteq> 0)"

text \<open>\<open>a || b\<close>.\<close>

definition js_or :: "jsval \<Rightarrow> jsval \<Rightarrow> jsval" where
  "js_or a b = (if truthy a then a else b)"

text \<open>The decimal digits of a number, for \<open>String(x)\<close>.\<close>

fun digits :: "nat \<Rightarrow> string" where
  "digits n =
     (if n < 10 then [char_of (48 + n)]
      else digits (n div 10) @ [char_of (48 + n mod 10)])"

declare digits.simps [simp del]

fun js_String :: "jsval \<Rightarrow> string" where
  "js_String Undefined = ''undefined''"
| "js_String Null = ''null''"
| "js_String (JBool b) = (if b then ''true'' else ''false'')"
| "js_String (JStr s) = s"
| "js_String (JNum n) = (if n < 0 then CHR ''-'' # digits (nat (- n)) else digits (nat n))"

section \<open>The rich text library and the URL helpers\<close>

text \<open>
  The link UI imports \<open>isCollapsed\<close>, \<open>slice\<close>, \<open>create\<close>, \<open>applyFormat\<close>, \<open>insert\<close>,
  \<open>replace\<close> and \<open>removeFormat\<close> from the rich text package, \<open>stripHTML\<close> from the DOM
  package, \<open>prependHTTP\<close> from the URL package and \<open>createLinkFormat\<close> and
  \<open>isValidHref\<close> from its own \<open>utils\<close> module. None of these files is among the
  sources, so each is modelled from what the specification says about it.
\<close>

text \<open>Modelled from the spec: \<open>isCollapsed\<close>, absent from the sources. A selection is
  collapsed when it is a caret and not a range.\<close>

definition isCollapsed :: "rich_text_value \<Rightarrow> bool" where
  "isCollapsed v \<longleftrightarrow> vstart v = vend v"

text \<open>Modelled from the spec: the reading of an index by \<open>slice\<close>, absent from the
  sources. The spec gives the range as \<open>[start, end)\<close> and says nothing of an index that
  is \<open>null\<close> or negative; the model reads it as JavaScript's own \<open>slice\<close> on an array or
  a string of length \<open>n\<close> does: \<open>null\<close> counts as \<open>0\<close>, a negative index counts from the
  end, and the result is clipped to \<open>0..n\<close>.\<close>

definition slice_index :: "int option \<Rightarrow> nat \<Rightarrow> nat" where
  "slice_index i n =
     (case i of None \<Rightarrow> 0 | Some j \<Rightarrow> if j < 0 then nat (int n + j) else min (nat j) n)"

text \<open>Modelled from the spec: the part \<open>[s, e)\<close> of an array or of a string, for \<open>slice\<close>,
  absent from the sources.\<close>

definition js_slice :: "'a list \<Rightarrow> int option \<Rightarrow> int option \<Rightarrow> 'a list" where
  "js_slice xs s e =
     (let a = slice_index s (length xs); b = slice_index e (length xs)
      in take (b - a) (drop a xs))"

text \<open>Modelled from the spec: \<open>slice\<close>, absent from the sources. It cuts the value to
  the range \<open>[startIndex, endIndex)\<close> (``slice the value to that range''); the result has
  no selection and no active formats.\<close>

definition slice :: "rich_text_value \<Rightarrow> int option \<Rightarrow> int option \<Rightarrow> rich_text_value" where
  "slice v startIndex endIndex =
     \<lparr>formats = js_slice (formats v) startIndex endIndex,
      vtext = js_slice (vtext v) startIndex endIndex,
      vstart = 0, vend = 0, activeFormats = []\<rparr>"

text \<open>Modelled from the spec: the scan of \<open>stripHTML\<close>, absent from the sources. What
  stands between a \<open><\<close> and the next \<open>>\<close> is dropped, both included; \<open>inside\<close> says
  that the scan is between the two.\<close>

fun strip_tags :: "bool \<Rightarrow> string \<Rightarrow> string" where
  "strip_tags inside [] = []"
| "strip_tags inside (c # cs) =
     (if inside then (if c = CHR ''>'' then strip_tags False cs else strip_tags True cs)
      else (if c = CHR ''<'' then strip_tags True cs else c # strip_tags False cs))"

text \<open>Modelled from the spec: \<open>stripHTML\<close>, absent from the sources. It returns ``the
  text content minus any HTML tags''.\<close>

definition stripHTML :: "string \<Rightarrow> string" where
  "stripHTML html = strip_tags False html"

text \<open>Modelled from the spec: \<open>create\<close>, absent from the sources. \<open>create({text})\<close> is
  the value with that text and no format on any character.\<close>

definition create :: "string \<Rightarrow> rich_text_value" where
  "create t = \<lparr>formats = replicate (length t) None, vtext = t,
                vstart = 0, vend = 0, activeFormats = []\<rparr>"

text \<open>Modelled from the spec: what \<open>applyFormat\<close>, absent from the sources, does to one
  character (``re-applies the link format''). The format goes to the end of the format
  list, in place of any format of the same type the character had.\<close>

definition add_format :: "format \<Rightarrow> format list option \<Rightarrow> format list option" where
  "add_format f slot =
     Some (filter (\<lambda>g. ftype g \<noteq> ftype f) (case slot of None \<Rightarrow> [] | Some l \<Rightarrow> l) @ [f])"

text \<open>Modelled from the spec: \<open>applyFormat\<close>, absent from the sources (``apply format
  over range''). Every character of \<open>[startIndex, endIndex)\<close> gets the format.\<close>

definition applyFormat :: "rich_text_value \<Rightarrow> format \<Rightarrow> int \<Rightarrow> int \<Rightarrow> rich_text_value" where
  "applyFormat v f startIndex endIndex =
     (let a = nat startIndex; b = nat endIndex; fs = formats v
      in v\<lparr>formats := take a fs @ map (add_format f) (take (b - a) (drop a fs))
                          @ drop (max a b) fs\<rparr>)"

text \<open>Modelled from the spec: \<open>insert\<close>, absent from the sources (``inserts
  newly-created formatted text at the cursor''). The inserted value takes the place of
  the selection; the selection collapses to the end of the inserted text and the active
  formats are cleared.\<close>

definition insert_value :: "rich_text_value \<Rightarrow> rich_text_value \<Rightarrow> rich_text_value" where
  "insert_value v valueToInsert =
     (let a = nat (vstart v); b = nat (vend v);
          caret = vstart v + int (length (vtext valueToInsert))
      in \<lparr>formats = take a (formats v) @ formats valueToInsert @ drop b (formats v),
          vtext = take a (vtext v) @ vtext valueToInsert @ drop b (vtext v),
          vstart = caret, vend = caret, activeFormats = []\<rparr>)"

text \<open>Modelled from the spec: the search of \<open>replace\<close>, absent from the sources. The
  link UI hands \<open>replace\<close> the text to replace and no range, so \<open>replace\<close> has to find
  the text: the model takes the first offset at which it occurs, as JavaScript's
  \<open>String.prototype.replace\<close> with a string pattern does.\<close>

fun index_of_sub :: "string \<Rightarrow> string \<Rightarrow> nat option" where
  "index_of_sub pattern [] = (if pattern = [] then Some 0 else None)"
| "index_of_sub pattern (c # cs) =
     (if take (length pattern) (c # cs) = pattern then Some 0
      else map_option Suc (index_of_sub pattern cs))"

text \<open>Modelled from the spec: the third argument of \<open>replace\<close>, absent from the
  sources. The link UI passes a string at line 191 and a rich text value at line 201.\<close>

datatype replacement = RText string | RValue rich_text_value

text \<open>Modelled from the spec: \<open>replace\<close>, absent from the sources (``replace range'',
  ``replaces the text content ... with the new text while preserving any non-link formats
  already applied to that range''). The link UI calls it with the text to replace, so
  the range is the first place where that text occurs; a value without it is returned
  unchanged. A replacement value brings its own formats; the characters of a
  replacement string take the formats of the first replaced character. The selection
  collapses to the end of the replacement.\<close>

definition replace :: "rich_text_value \<Rightarrow> string \<Rightarrow> replacement \<Rightarrow> rich_text_value" where
  "replace v pattern replacement =
     (case index_of_sub pattern (vtext v) of
        None \<Rightarrow> v
      | Some offset \<Rightarrow>
          (let newText = (case replacement of RText s \<Rightarrow> s | RValue r \<Rightarrow> vtext r);
               newFormats = (case replacement of
                   RText s \<Rightarrow> replicate (length s) (formats_at (formats v) (int offset))
                 | RValue r \<Rightarrow> formats r);
               caret = int (offset + length newText)
           in v\<lparr>formats := take offset (formats v) @ newFormats
                               @ drop (offset + length pattern) (formats v),
                 vtext := take offset (vtext v) @ newText
                               @ drop (offset + length pattern) (vtext v),
                 vstart := caret, vend := caret\<rparr>))"

text \<open>Modelled from the spec: \<open>removeFormat\<close>, absent from the sources (``strips the
  link format from the full value''). Every format of the type is removed, from every
  character and from the active formats.\<close>

definition removeFormat :: "rich_text_value \<Rightarrow> string \<Rightarrow> rich_text_value" where
  "removeFormat v formatType =
     v\<lparr>formats := map (map_option (filter (\<lambda>g. ftype g \<noteq> formatType))) (formats v),
       activeFormats := filter (\<lambda>g. ftype g \<noteq> formatType) (activeFormats v)\<rparr>"

text \<open>Modelled from the spec: the letters of a scheme, for \<open>prependHTTP\<close> and
  \<open>isValidHref\<close>, absent from the sources.\<close>

definition is_letter :: "char \<Rightarrow> bool" where
  "is_letter c \<longleftrightarrow> c \<in> set ''abcdefghijklmnopqrstuvwxyzABCDEFGHIJKLMNOPQRSTUVWXYZ''"

text \<open>Modelled from the spec: the ``scheme-bearing form'' that \<open>prependHTTP\<close> gives a
  URL and \<open>isValidHref\<close> asks for, both absent from the sources. A URL bears a scheme
  when it starts with letters followed by a colon.\<close>

definition has_scheme :: "string \<Rightarrow> bool" where
  "has_scheme u \<longleftrightarrow>
     takeWhile is_letter u \<noteq> [] \<and>
     (case dropWhile is_letter u of [] \<Rightarrow> False | c # cs \<Rightarrow> c = CHR '':'')"

text \<open>Modelled from the spec: \<open>prependHTTP\<close>, absent from the sources (``protocol
  normalization'': \<open>example.com\<close> becomes \<open>http://example.com\<close>). A URL string without a
  scheme gets \<open>http://\<close> in front; a URL with a scheme, and a value that is not a
  string, is returned as it is.\<close>

definition prependHTTP :: "jsval \<Rightarrow> jsval" where
  "prependHTTP url =
     (case url of
        JStr u \<Rightarrow> if has_scheme u then JStr u else JStr (''http://'' @ u)
      | other \<Rightarrow> other)"

text \<open>Modelled from the spec: \<open>isValidHref\<close>, absent from the sources. A URL is valid
  when it has a ``non-empty scheme-bearing form''.\<close>

definition isValidHref :: "jsval \<Rightarrow> bool" where
  "isValidHref href = (case href of JStr u \<Rightarrow> u \<noteq> [] \<and> has_scheme u | other \<Rightarrow> False)"

text \<open>Modelled from the spec: \<open>createLinkFormat\<close>, absent from the sources (``builds a
  link format from the merged settings''). The result is a new object, of identity
  \<open>oid\<close>, of type \<open>core/link\<close>; its attributes are the ones the link UI reads back
  from the active format: \<open>url\<close>, \<open>type\<close>, \<open>id\<close>, and \<open>target\<close>, which is \<open>_blank\<close>
  for a link that opens in a new tab.\<close>

definition createLinkFormat :: "nat \<Rightarrow> jsval \<Rightarrow> jsval \<Rightarrow> jsval \<Rightarrow> jsval \<Rightarrow> format" where
  "createLinkFormat oid url link_type link_id opensInNewWindow =
     \<lparr>ident = oid, ftype = ''core/link'',
      attributes = [(''url'', url)]
        @ (if truthy link_type then [(''type'', link_type)] else [])
        @ (if truthy link_id then [(''id'', link_id)] else [])
        @ (if truthy opensInNewWindow then [(''target'', JStr ''_blank'')] else [])\<rparr>"

section \<open>The link UI\<close>

text \<open>
  The props of \<open>InlineLinkUI\<close> that its handlers read; \<open>value_prop\<close> is the prop
  \<open>value\<close>. The callbacks \<open>onChange\<close>, \<open>stopAddingLink\<close> and \<open>speak\<close> and the state
  setter \<open>setNextLinkValue\<close> are effects: a handler returns the list of the calls it
  made, in order.
\<close>

record props =
  isActive :: bool
  activeAttributes :: obj
  addingLink :: bool
  value_prop :: rich_text_value

datatype effect =
    SetNextLinkValue "obj option"
  | OnChange rich_text_value
  | StopAddingLink
  | Speak string string

text \<open>
  A handler returns, or throws after the effects it has made. The one throwing step of
  \<open>onChangeLink\<close> is \<open>newText.length\<close> on a \<open>newText\<close> that is \<open>undefined\<close> or
  \<open>null\<close>. The fields \<open>url\<close>, \<open>text\<close> and \<open>title\<close> of a link value are strings or
  \<open>undefined\<close> (the typedef \<open>WPLinkControlValue\<close>); a \<open>newText\<close> that is a number or
  a boolean is outside that type, and the model stops there with \<open>IllTyped\<close>.
\<close>

datatype completion = Returned | TypeError | IllTyped

record outcome =
  effects :: "effect list"
  completion :: completion

text \<open>Lines 89 to 104: the selected text as a rich text value, the range around the
  caret when the selection is collapsed.\<close>

definition richLinkTextValue :: "rich_text_value \<Rightarrow> rich_text_value" where
  "richLinkTextValue v =
     (if isCollapsed v
      then (let boundary = getFormatBoundary_default v ''core/link''
            in slice v (bstart boundary) (bend boundary))
      else slice v (Some (vstart v)) (Some (vend v)))"

text \<open>Line 107: \<open>text\<close>.\<close>

definition link_text :: "rich_text_value \<Rightarrow> string" where
  "link_text v = stripHTML (vtext (richLinkTextValue v))"

text \<open>Lines 119 to 126: \<open>linkValue\<close>.\<close>

definition linkValue :: "props \<Rightarrow> obj option \<Rightarrow> obj" where
  "linkValue p nextLinkValue =
     spread
       [(''url'', get (activeAttributes p) ''url''),
        (''type'', get (activeAttributes p) ''type''),
        (''id'', get (activeAttributes p) ''id''),
        (''opensInNewTab'', JBool (get (activeAttributes p) ''target'' = JStr ''_blank'')),
        (''text'', JStr (link_text (value_prop p)))]
       (state_obj nextLinkValue)"

text \<open>Lines 128 to 133.\<close>

definition removeLink :: "props \<Rightarrow> outcome" where
  "removeLink p =
     (let newValue = removeFormat (value_prop p) ''core/link''
      in \<lparr>effects = [OnChange newValue, StopAddingLink, Speak ''Link removed.'' ''assertive''],
          completion = Returned\<rparr>)"

text \<open>Lines 163 to 172: the link format built from the merged \<open>nextValue\<close>; \<open>oid\<close> is
  the identity of the new object.\<close>

definition linkFormat_of :: "nat \<Rightarrow> obj \<Rightarrow> format" where
  "linkFormat_of oid nextValue =
     createLinkFormat oid
       (prependHTTP (get nextValue ''url''))
       (get nextValue ''type'')
       (if get nextValue ''id'' \<noteq> Undefined \<and> get nextValue ''id'' \<noteq> Null
        then JStr (js_String (get nextValue ''id'')) else Undefined)
       (get nextValue ''opensInNewTab'')"

text \<open>Lines 176 to 206: the value handed to \<open>onChange\<close>.\<close>

definition committed_value :: "props \<Rightarrow> format \<Rightarrow> string \<Rightarrow> rich_text_value" where
  "committed_value p linkFormat newText =
     (let v = value_prop p in
      if isCollapsed v \<and> \<not> isActive p
      then (let toInsert = applyFormat (create newText) linkFormat 0 (int (length newText))
            in insert_value v toInsert)
      else (let newValue = replace (richLinkTextValue v) (link_text v) (RText newText);
                newValue = applyFormat newValue linkFormat 0 (int (length newText));
                newValue = replace v (link_text v) (RValue newValue)
            in newValue\<lparr>vstart := vend newValue, activeFormats := []\<rparr>))"

text \<open>Lines 214 to 225: the announcement.\<close>

definition announcement :: "props \<Rightarrow> jsval \<Rightarrow> string" where
  "announcement p newUrl =
     (if \<not> isValidHref newUrl
      then ''Warning: the link has been inserted but may have errors. Please test it.''
      else if isActive p then ''Link edited.''
      else ''Link inserted.'')"

text \<open>Lines 135 to 226: \<open>onChangeLink(nextValue)\<close>, in the state \<open>nextLinkValue\<close>.\<close>

definition onChangeLink :: "nat \<Rightarrow> props \<Rightarrow> obj option \<Rightarrow> obj \<Rightarrow> outcome" where
  "onChangeLink oid p nextLinkValue nextValue0 =
     (let nextValue = spread (state_obj nextLinkValue) nextValue0;
          didToggleSetting =
            (get (linkValue p nextLinkValue) ''opensInNewTab'' \<noteq> get nextValue ''opensInNewTab''
             \<and> get (linkValue p nextLinkValue) ''url'' = get nextValue ''url'');
          didToggleSettingForNewLink = (didToggleSetting \<and> get nextValue ''url'' = Undefined);
          set_state = SetNextLinkValue (if didToggleSettingForNewLink then Some nextValue else None)
      in if didToggleSettingForNewLink
         then \<lparr>effects = [set_state], completion = Returned\<rparr>
         else
           (let newUrl = prependHTTP (get nextValue ''url'');
                linkFormat = linkFormat_of oid nextValue;
                newText = js_or (js_or (get nextValue ''text'') (get nextValue ''title'')) newUrl
            in case newText of
                 JStr t \<Rightarrow>
                   \<lparr>effects = [set_state, OnChange (committed_value p linkFormat t)]
                        @ (if \<not> didToggleSetting then [StopAddingLink] else [])
                        @ [Speak (announcement p newUrl) ''assertive''],
                    completion = Returned\<rparr>
               | Undefined \<Rightarrow> \<lparr>effects = [set_state], completion = TypeError\<rparr>
               | Null \<Rightarrow> \<lparr>effects = [set_state], completion = TypeError\<rparr>
               | JBool b \<Rightarrow> \<lparr>effects = [set_state], completion = IllTyped\<rparr>
               | JNum n \<Rightarrow> \<lparr>effects = [set_state], completion = IllTyped\<rparr>))"


text \<open>What a list of effects shows to the outside: the values handed to \<open>onChange\<close>,
  the messages spoken, and the number of calls of \<open>stopAddingLink\<close>.\<close>

fun changes :: "effect list \<Rightarrow> rich_text_value list" where
  "changes [] = []"
| "changes (OnChange v # es) = v # changes es"
| "changes (e # es) = changes es"

fun spoken :: "effect list \<Rightarrow> (string \<times> string) list" where
  "spoken [] = []"
| "spoken (Speak msg politeness # es) = (msg, politeness) # spoken es"
| "spoken (e # es) = spoken es"

fun stops :: "effect list \<Rightarrow> nat" where
  "stops [] = 0"
| "stops (StopAddingLink # es) = Suc (stops es)"
| "stops (e # es) = stops es"

text \<open>A value without any format of type \<open>ty\<close>, on its characters and among its active
  formats.\<close>

definition no_format_of_type :: "rich_text_value \<Rightarrow> string \<Rightarrow> bool" where
  "no_format_of_type v ty \<longleftrightarrow>
     (\<forall>slot \<in> set (formats v). \<forall>g \<in> set (case slot of None \<Rightarrow> [] | Some l \<Rightarrow> l). ftype g \<noteq> ty) \<and>
     (\<forall>g \<in> set (activeFormats v). ftype g \<noteq> ty)"


subsection \<open>Example values\<close>

text \<open>
  Two link formats built separately with the same attributes, and a bold format.
\<close>

definition linkA :: format where
  "linkA = \<lparr>ident = 1, ftype = ''core/link'', attributes = [(''url'', JStr ''http://a.org'')]\<rparr>"


definition bold :: format where
  "bold = \<lparr>ident = 3, ftype = ''core/bold'', attributes = []\<rparr>"

text \<open>\<open>a[bcd]e\<close>: a link over the characters 1 to 3, the caret before \<open>c\<close>.\<close>

definition ex_plain :: rich_text_value where
  "ex_plain = \<lparr>formats = [None, Some [linkA], Some [linkA], Some [linkA], Some [bold]],
     vtext = ''abcde'', vstart = 2, vend = 2, activeFormats = []\<rparr>"

text \<open>One link over all of \<open>abc\<close>, the caret before \<open>b\<close>.\<close>

definition ex_three :: rich_text_value where
  "ex_three = \<lparr>formats = [Some [linkA], Some [linkA], Some [linkA]],
     vtext = ''abc'', vstart = 1, vend = 1, activeFormats = []\<rparr>"

text \<open>
  One link over all of \<open>abc\<close> whose first character is bold as well, the bold format
  applied first: the link is second in the format list of \<open>a\<close> and first in the lists of
  \<open>b\<close> and \<open>c\<close>. The caret is before \<open>b\<close>.
\<close>

definition ex_shifted :: rich_text_value where
  "ex_shifted = \<lparr>formats = [Some [bold, linkA], Some [linkA], Some [linkA]],
     vtext = ''abc'', vstart = 1, vend = 1, activeFormats = []\<rparr>"



text \<open>No link is active: the text is \<open>a b\<close> and the caret is before \<open>b\<close>.\<close>

definition ex_caret :: props where
  "ex_caret = \<lparr>isActive = False, activeAttributes = [], addingLink = True,
     value_prop = \<lparr>formats = [None, Some [bold], None], vtext = ''a b'',
        vstart = 2, vend = 2, activeFormats = []\<rparr>\<rparr>"



text \<open>The link \<open>old\<close> in \<open>x old.\<close> is active, bold, and opens in a new tab; the caret
  is before \<open>l\<close>.\<close>

definition linkT :: format where
  "linkT = \<lparr>ident = 4, ftype = ''core/link'',
     attributes = [(''url'', JStr ''http://a.org''), (''target'', JStr ''_blank'')]\<rparr>"

definition ex_edit :: props where
  "ex_edit = \<lparr>isActive = True, activeAttributes = attributes linkT, addingLink = False,
     value_prop = \<lparr>formats = [None, None, Some [bold, linkT], Some [bold, linkT],
          Some [bold, linkT], None],
        vtext = ''x old.'', vstart = 3, vend = 3, activeFormats = [bold, linkT]\<rparr>\<rparr>"





definition edit_input :: obj where
  "edit_input = [(''url'', JStr ''http://a.org''), (''text'', JStr ''new'')]"


section \<open>Properties of the boundary locator\<close>

lemma indexOf_nonneg_iff: "0 \<le> indexOf xs x \<longleftrightarrow> x \<in> set xs"
  by (induction xs) (auto simp: Let_def)

lemma indexOf_bounds: "- 1 \<le> indexOf xs x \<and> indexOf xs x < int (length xs)"
  by (induction xs) (auto simp: Let_def)

lemma indexOf_nth: "x \<in> set xs \<Longrightarrow> xs ! nat (indexOf xs x) = x"
proof (induction xs)
  case Nil
  then show ?case by simp
next
  case (Cons y ys)
  show ?case
  proof (cases "y = x")
    case True
    then show ?thesis by simp
  next
    case False
    with Cons.prems have mem: "x \<in> set ys" by simp
    then have "0 \<le> indexOf ys x" by (simp add: indexOf_nonneg_iff)
    with False Cons.IH [OF mem] show ?thesis
      by (simp add: Let_def nat_add_distrib)
  qed
qed

lemma js_index_indexOf: "x \<in> set xs \<Longrightarrow> js_index xs (indexOf xs x) = Some x"
  using indexOf_bounds [of xs x]
  by (simp add: js_index_def indexOf_nonneg_iff indexOf_nth)

lemma find_type_in: "List.find P l = Some f \<Longrightarrow> f \<in> set l \<and> P f"
  by (auto simp: find_Some_iff)

lemma walk_backwards_spec:
  "walk_backwards fmts k f i \<le> i \<and>
   \<not> same_format_at fmts k f (walk_backwards fmts k f i) \<and>
   (\<forall>x. walk_backwards fmts k f i < x \<and> x \<le> i \<longrightarrow> same_format_at fmts k f x)"
proof (induction fmts k f i rule: walk_backwards.induct)
  case (1 fmts k f i)
  show ?case
  proof (cases "same_format_at fmts k f i")
    case True
    then have eq: "walk_backwards fmts k f i = walk_backwards fmts k f (i - 1)"
      by (subst walk_backwards.simps) simp
    from "1.IH" [OF True] have ih:
      "walk_backwards fmts k f (i - 1) \<le> i - 1"
      "\<not> same_format_at fmts k f (walk_backwards fmts k f (i - 1))"
      "\<forall>x. walk_backwards fmts k f (i - 1) < x \<and> x \<le> i - 1 \<longrightarrow> same_format_at fmts k f x"
      by blast+
    have "\<forall>x. walk_backwards fmts k f (i - 1) < x \<and> x \<le> i \<longrightarrow> same_format_at fmts k f x"
    proof (intro allI impI)
      fix x assume x: "walk_backwards fmts k f (i - 1) < x \<and> x \<le> i"
      show "same_format_at fmts k f x"
      proof (cases "x = i")
        case True
        with \<open>same_format_at fmts k f i\<close> show ?thesis by simp
      next
        case False
        with x ih(3) show ?thesis by simp
      qed
    qed
    with ih(1,2) show ?thesis unfolding eq by simp
  next
    case False
    then have "walk_backwards fmts k f i = i"
      by (subst walk_backwards.simps) simp
    with False show ?thesis by auto
  qed
qed

lemma walk_forwards_spec:
  "i \<le> walk_forwards fmts k f i \<and>
   \<not> same_format_at fmts k f (walk_forwards fmts k f i) \<and>
   (\<forall>x. i \<le> x \<and> x < walk_forwards fmts k f i \<longrightarrow> same_format_at fmts k f x)"
proof (induction fmts k f i rule: walk_forwards.induct)
  case (1 fmts k f i)
  show ?case
  proof (cases "same_format_at fmts k f i")
    case True
    then have eq: "walk_forwards fmts k f i = walk_forwards fmts k f (i + 1)"
      by (subst walk_forwards.simps) simp
    from "1.IH" [OF True] have ih:
      "i + 1 \<le> walk_forwards fmts k f (i + 1)"
      "\<not> same_format_at fmts k f (walk_forwards fmts k f (i + 1))"
      "\<forall>x. i + 1 \<le> x \<and> x < walk_forwards fmts k f (i + 1) \<longrightarrow> same_format_at fmts k f x"
      by blast+
    have "\<forall>x. i \<le> x \<and> x < walk_forwards fmts k f (i + 1) \<longrightarrow> same_format_at fmts k f x"
    proof (intro allI impI)
      fix x assume x: "i \<le> x \<and> x < walk_forwards fmts k f (i + 1)"
      show "same_format_at fmts k f x"
      proof (cases "x = i")
        case True
        with \<open>same_format_at fmts k f i\<close> show ?thesis by simp
      next
        case False
        with x ih(3) show ?thesis by simp
      qed
    qed
    with ih(1,2) show ?thesis unfolding eq by simp
  next
    case False
    then have "walk_forwards fmts k f i = i"
      by (subst walk_forwards.simps) simp
    with False show ?thesis by auto
  qed
qed

lemma walk_backwards_eq:
  assumes "j \<le> i" and "\<not> same_format_at fmts k f j"
    and "\<forall>x. j < x \<and> x \<le> i \<longrightarrow> same_format_at fmts k f x"
  shows "walk_backwards fmts k f i = j"
proof -
  let ?w = "walk_backwards fmts k f i"
  from walk_backwards_spec [where fmts = fmts and k = k and f = f and i = i] have w:
    "?w \<le> i" "\<not> same_format_at fmts k f ?w"
    "\<forall>x. ?w < x \<and> x \<le> i \<longrightarrow> same_format_at fmts k f x"
    by blast+
  have "\<not> ?w < j" using w(3) assms(1,2) by blast
  moreover have "\<not> j < ?w" using assms(3) w(1,2) by blast
  ultimately show ?thesis by simp
qed

lemma walk_forwards_eq:
  assumes "i \<le> j" and "\<not> same_format_at fmts k f j"
    and "\<forall>x. i \<le> x \<and> x < j \<longrightarrow> same_format_at fmts k f x"
  shows "walk_forwards fmts k f i = j"
proof -
  let ?w = "walk_forwards fmts k f i"
  from walk_forwards_spec [where fmts = fmts and k = k and f = f and i = i] have w:
    "i \<le> ?w" "\<not> same_format_at fmts k f ?w"
    "\<forall>x. i \<le> x \<and> x < ?w \<longrightarrow> same_format_at fmts k f x"
    by blast+
  have "\<not> j < ?w" using w(3) assms(1,2) by blast
  moreover have "\<not> ?w < j" using assms(3) w(1,2) by blast
  ultimately show ?thesis by simp
qed

lemma same_format_at_iff:
  "same_format_at (formats v) k f i \<longleftrightarrow> js_index (formats_of v i) k = Some f"
  by (auto simp: same_format_at_def formats_of_def js_index_def split: option.splits)

lemma getFormatBoundary_found:
  assumes "formats_at (formats v) s = Some l" and "List.find (\<lambda>g. ftype g = ty) l = Some f"
  shows "getFormatBoundary v ty s e =
           \<lparr>bstart = Some (walk_backwards (formats v) (indexOf l f) f s + 1),
            bend = Some (walk_forwards (formats v) (indexOf l f) f (e + 1))\<rparr>"
    and "same_format_at (formats v) (indexOf l f) f s"
proof -
  show "getFormatBoundary v ty s e =
           \<lparr>bstart = Some (walk_backwards (formats v) (indexOf l f) f s + 1),
            bend = Some (walk_forwards (formats v) (indexOf l f) f (e + 1))\<rparr>"
    using assms by (simp add: getFormatBoundary_def Let_def)
  from assms(2) have "f \<in> set l" by (simp add: find_type_in)
  then have "js_index l (indexOf l f) = Some f" by (rule js_index_indexOf)
  with assms(1) show "same_format_at (formats v) (indexOf l f) f s"
    by (simp add: same_format_at_def)
qed

lemma getFormatBoundary_cases:
  assumes "getFormatBoundary v ty s e = \<lparr>bstart = Some s', bend = Some e'\<rparr>"
  obtains l f where "formats_at (formats v) s = Some l"
    and "List.find (\<lambda>g. ftype g = ty) l = Some f"
  using assms by (auto simp: getFormatBoundary_def Let_def split: option.splits)

lemma filter_le_one_unique:
  "length (filter P l) \<le> 1 \<Longrightarrow> p < length l \<Longrightarrow> q < length l \<Longrightarrow> P (l ! p) \<Longrightarrow> P (l ! q) \<Longrightarrow> p = q"
proof (induction l arbitrary: p q)
  case Nil
  then show ?case by simp
next
  case (Cons a l)
  show ?case
  proof (cases "P a")
    case True
    with Cons.prems(1) have none: "filter P l = []" by simp
    have "p = 0"
    proof (rule ccontr)
      assume "p \<noteq> 0"
      with Cons.prems(2,4) have "l ! (p - 1) \<in> set l" "P (l ! (p - 1))" by (auto simp: nth_Cons')
      with none show False by (auto simp: filter_empty_conv)
    qed
    moreover have "q = 0"
    proof (rule ccontr)
      assume "q \<noteq> 0"
      with Cons.prems(3,5) have "l ! (q - 1) \<in> set l" "P (l ! (q - 1))" by (auto simp: nth_Cons')
      with none show False by (auto simp: filter_empty_conv)
    qed
    ultimately show ?thesis by simp
  next
    case False
    with Cons.prems(4,5) have pq: "p \<noteq> 0" "q \<noteq> 0" by (auto simp: nth_Cons' split: if_splits)
    with Cons.prems False have "p - 1 = q - 1"
      by (intro Cons.IH) (auto simp: nth_Cons')
    with pq show ?thesis by simp
  qed
qed

lemma find_index_unique:
  assumes one: "length (filter (\<lambda>g. ftype g = ty) l) \<le> 1"
    and at: "js_index l k = Some f" and ty: "ftype f = ty"
  shows "List.find (\<lambda>g. ftype g = ty) l = Some f \<and> indexOf l f = k"
proof -
  from at have k: "0 \<le> k" "nat k < length l" "l ! nat k = f"
    by (auto simp: js_index_def split: if_splits)
  then have mem: "f \<in> set l" by (auto simp: in_set_conv_nth)
  have "List.find (\<lambda>g. ftype g = ty) l \<noteq> None" using mem ty by (auto simp: find_None_iff)
  then obtain g where g: "List.find (\<lambda>g. ftype g = ty) l = Some g" by auto
  then obtain p where p: "p < length l" "l ! p = g" "ftype g = ty"
    by (auto simp: find_Some_iff)
  from filter_le_one_unique [OF one p(1) k(2)] p ty k(3) have "p = nat k" by simp
  with p k have "g = f" by simp
  let ?j = "indexOf l f"
  from mem have j: "0 \<le> ?j" "l ! nat ?j = f" by (simp_all add: indexOf_nonneg_iff indexOf_nth)
  from indexOf_bounds [of l f] j have "nat ?j < length l" by simp
  from filter_le_one_unique [OF one this k(2)] j ty k(3) have "nat ?j = nat k" by simp
  with j(1) k(1) have "?j = k" by simp
  with g \<open>g = f\<close> show ?thesis by simp
qed

lemma formats_at_mem: "formats_at fmts i = Some l \<Longrightarrow> Some l \<in> set fmts"
proof -
  assume a: "formats_at fmts i = Some l"
  then have "0 \<le> i" "nat i < length fmts" "fmts ! nat i = Some l"
    by (auto simp: formats_at_def js_index_def split: if_splits option.splits)
  from nth_mem [OF this(2)] this(3) show ?thesis by simp
qed

lemma find_filter_hd: "filter P l = x # xs \<Longrightarrow> List.find P l = Some x"
proof (induction l)
  case Nil
  then show ?case by simp
next
  case (Cons a l)
  then show ?case by (cases "P a") auto
qed


lemma boundary_walk:
  assumes l: "formats_at (formats v) s = Some l"
    and f: "List.find (\<lambda>g. ftype g = ty) l = Some f"
  obtains s' e' where
    "getFormatBoundary v ty s e = \<lparr>bstart = Some s', bend = Some e'\<rparr>"
    "s' \<le> s" "e < e'"
    "\<forall>i. s' \<le> i \<and> i \<le> s \<longrightarrow> js_index (formats_of v i) (indexOf l f) = Some f"
    "\<forall>i. e < i \<and> i < e' \<longrightarrow> js_index (formats_of v i) (indexOf l f) = Some f"
    "js_index (formats_of v (s' - 1)) (indexOf l f) \<noteq> Some f"
    "js_index (formats_of v e') (indexOf l f) \<noteq> Some f"
proof -
  let ?k = "indexOf l f"
  let ?w = "walk_backwards (formats v) ?k f s"
  let ?u = "walk_forwards (formats v) ?k f (e + 1)"
  from walk_backwards_spec [where fmts = "formats v" and k = ?k and f = f and i = s]
  have w: "?w \<le> s" "\<not> same_format_at (formats v) ?k f ?w"
    "\<forall>x. ?w < x \<and> x \<le> s \<longrightarrow> same_format_at (formats v) ?k f x"
    by blast+
  from walk_forwards_spec [where fmts = "formats v" and k = ?k and f = f and i = "e + 1"]
  have u: "e + 1 \<le> ?u" "\<not> same_format_at (formats v) ?k f ?u"
    "\<forall>x. e + 1 \<le> x \<and> x < ?u \<longrightarrow> same_format_at (formats v) ?k f x"
    by blast+
  from w(1,2) getFormatBoundary_found(2) [OF l f] have "?w < s" by (cases "?w = s") auto
  show ?thesis
  proof (rule that [of "?w + 1" ?u])
    show "getFormatBoundary v ty s e = \<lparr>bstart = Some (?w + 1), bend = Some ?u\<rparr>"
      by (rule getFormatBoundary_found(1) [OF l f])
    show "?w + 1 \<le> s" using \<open>?w < s\<close> by simp
    show "e < ?u" using u(1) by simp
    show "\<forall>i. ?w + 1 \<le> i \<and> i \<le> s \<longrightarrow> js_index (formats_of v i) ?k = Some f"
      using w(3) by (simp add: same_format_at_iff)
    show "\<forall>i. e < i \<and> i < ?u \<longrightarrow> js_index (formats_of v i) ?k = Some f"
      using u(3) by (simp add: same_format_at_iff)
    show "js_index (formats_of v (?w + 1 - 1)) ?k \<noteq> Some f"
      using w(2) by (simp add: same_format_at_iff)
    show "js_index (formats_of v ?u) ?k \<noteq> Some f"
      using u(2) by (simp add: same_format_at_iff)
  qed
qed

subsection \<open>The null boundary\<close>

text \<open>
  Claim C5. For every value, format type and pair of indices: when the format list at
  \<open>startIndex\<close> holds no format of the target type (the slot may also be \<open>undefined\<close>
  or outside the array), \<open>getFormatBoundary\<close> returns \<open>{start: null, end: null}\<close>. The
  function is total and has no throwing step, so returning this value is not throwing.
\<close>

theorem getFormatBoundary_null_without_format: 
  assumes "\<forall>f \<in> set (formats_of v startIndex). ftype f \<noteq> ty"
  shows "getFormatBoundary v ty startIndex endIndex = \<lparr>bstart = None, bend = None\<rparr>"
proof (cases "formats_at (formats v) startIndex")
  case None
  then show ?thesis by (simp add: getFormatBoundary_def)
next
  case (Some l)
  with assms have "\<forall>f \<in> set l. ftype f \<noteq> ty" by (simp add: formats_of_def)
  then have "List.find (\<lambda>f. ftype f = ty) l = None" by (simp add: find_None_iff)
  with Some show ?thesis by (simp add: getFormatBoundary_def)
qed

theorem getFormatBoundary_null_without_format_witness:
  "formats_of ex_plain 4 = [bold] \<and> ftype bold \<noteq> ''core/link'' \<and>
   getFormatBoundary ex_plain ''core/link'' 4 4 = \<lparr>bstart = None, bend = None\<rparr> \<and>
   formats_of ex_plain 0 = [] \<and>
   getFormatBoundary ex_plain ''core/link'' 0 0 = \<lparr>bstart = None, bend = None\<rparr> \<and>
   formats_of ex_plain 7 = [] \<and>
   getFormatBoundary ex_plain ''core/link'' 7 7 = \<lparr>bstart = None, bend = None\<rparr>"
proof -
  have v: "formats_of ex_plain 4 = [bold]" "ftype bold \<noteq> ''core/link''"
    "formats_of ex_plain 0 = []" "formats_of ex_plain 7 = []"
    by code_simp+
  then have h4: "\<forall>f \<in> set (formats_of ex_plain 4). ftype f \<noteq> ''core/link''"
    and h0: "\<forall>f \<in> set (formats_of ex_plain 0). ftype f \<noteq> ''core/link''"
    and h7: "\<forall>f \<in> set (formats_of ex_plain 7). ftype f \<noteq> ''core/link''"
    by simp_all
  from getFormatBoundary_null_without_format [OF h4, of 4]
    getFormatBoundary_null_without_format [OF h0, of 0]
    getFormatBoundary_null_without_format [OF h7, of 7] v
  show ?thesis by simp
qed

subsection \<open>The boundary contains the selection\<close>

text \<open>
  Claim C6. When \<open>s \<le> e\<close> and \<open>getFormatBoundary\<close> called with \<open>s\<close> and \<open>e\<close> returns a
  boundary \<open>{start: s', end: e'}\<close> (not the null one), then \<open>s' \<le> s \<le> e \<le> e'\<close>.
\<close>

theorem getFormatBoundary_contains_selection:
  assumes "s \<le> e" and "getFormatBoundary v ty s e = \<lparr>bstart = Some s', bend = Some e'\<rparr>"
  shows "s' \<le> s \<and> s \<le> e \<and> e \<le> e'"
proof -
  from assms(2) obtain l f where l: "formats_at (formats v) s = Some l"
    and f: "List.find (\<lambda>g. ftype g = ty) l = Some f"
    by (rule getFormatBoundary_cases)
  let ?k = "indexOf l f"
  from getFormatBoundary_found(1) [OF l f, where e = e] getFormatBoundary_found(2) [OF l f] assms(2)
  have s': "s' = walk_backwards (formats v) ?k f s + 1"
    and e': "e' = walk_forwards (formats v) ?k f (e + 1)"
    and here: "same_format_at (formats v) ?k f s"
    by simp_all
  from walk_backwards_spec [where fmts = "formats v" and k = ?k and f = f and i = s] here
  have "walk_backwards (formats v) ?k f s \<noteq> s" "walk_backwards (formats v) ?k f s \<le> s"
    by auto
  then have "s' \<le> s" using s' by simp
  moreover from walk_forwards_spec [where fmts = "formats v" and k = ?k and f = f and i = "e + 1"] e' have "e \<le> e'" by simp
  ultimately show ?thesis using assms(1) by simp
qed

theorem getFormatBoundary_contains_selection_witness:
  "(2::int) \<le> 3 \<and>
   getFormatBoundary ex_plain ''core/link'' 2 3 = \<lparr>bstart = Some 1, bend = Some 4\<rparr> \<and>
   (1::int) \<le> 2 \<and> (3::int) \<le> 4"
proof -
  have h: "(2::int) \<le> 3"
    "getFormatBoundary ex_plain ''core/link'' 2 3 = \<lparr>bstart = Some 1, bend = Some 4\<rparr>"
    by code_simp+
  from getFormatBoundary_contains_selection [OF h] h show ?thesis by simp
qed

subsection \<open>The walks compare one position of the format lists\<close>

text \<open>
  Claim C10. Let \<open>f\<close> be the format located at \<open>startIndex = s\<close> and \<open>k\<close> its index
  in the format list \<open>l\<close> there. The returned range \<open>[s', e')\<close> is made of the characters
  from \<open>s'\<close> to \<open>s\<close> and from \<open>e + 1\<close> to \<open>e' - 1\<close> that hold \<open>f\<close> at position \<open>k\<close> of
  their own list; a character at or before \<open>s\<close>, or after \<open>e\<close>, that does not hold \<open>f\<close>
  at position \<open>k\<close> is outside the range whether or not it carries \<open>f\<close> elsewhere in its
  list; and the walks stop at \<open>s' - 1\<close> and at \<open>e'\<close>, which do not hold \<open>f\<close> at \<open>k\<close>.
\<close>

theorem getFormatBoundary_fixed_position:
  assumes l: "formats_at (formats v) s = Some l"
    and f: "List.find (\<lambda>g. ftype g = ty) l = Some f"
  shows "\<exists>s' e'. getFormatBoundary v ty s e = \<lparr>bstart = Some s', bend = Some e'\<rparr> \<and>
           (\<forall>i. s' \<le> i \<and> i \<le> s \<longrightarrow> js_index (formats_of v i) (indexOf l f) = Some f) \<and>
           (\<forall>i. e < i \<and> i < e' \<longrightarrow> js_index (formats_of v i) (indexOf l f) = Some f) \<and>
           (\<forall>j. j \<le> s \<and> js_index (formats_of v j) (indexOf l f) \<noteq> Some f \<longrightarrow> j < s') \<and>
           (\<forall>j. e < j \<and> js_index (formats_of v j) (indexOf l f) \<noteq> Some f \<longrightarrow> e' \<le> j) \<and>
           js_index (formats_of v (s' - 1)) (indexOf l f) \<noteq> Some f \<and>
           js_index (formats_of v e') (indexOf l f) \<noteq> Some f"
proof -
  from l f obtain s' e' where b:
    "getFormatBoundary v ty s e = \<lparr>bstart = Some s', bend = Some e'\<rparr>"
    "\<forall>i. s' \<le> i \<and> i \<le> s \<longrightarrow> js_index (formats_of v i) (indexOf l f) = Some f"
    "\<forall>i. e < i \<and> i < e' \<longrightarrow> js_index (formats_of v i) (indexOf l f) = Some f"
    "js_index (formats_of v (s' - 1)) (indexOf l f) \<noteq> Some f"
    "js_index (formats_of v e') (indexOf l f) \<noteq> Some f"
    by (rule boundary_walk [where e = e])
  have "\<forall>j. j \<le> s \<and> js_index (formats_of v j) (indexOf l f) \<noteq> Some f \<longrightarrow> j < s'"
    using b(2) by (meson not_le)
  moreover have "\<forall>j. e < j \<and> js_index (formats_of v j) (indexOf l f) \<noteq> Some f \<longrightarrow> e' \<le> j"
    using b(3) by (meson not_le)
  ultimately show ?thesis using b by blast
qed

theorem getFormatBoundary_fixed_position_witness:
  "formats_at (formats ex_shifted) 1 = Some [linkA] \<and>
   List.find (\<lambda>g. ftype g = ''core/link'') [linkA] = Some linkA \<and>
   indexOf [linkA] linkA = 0 \<and>
   linkA \<in> set (formats_of ex_shifted 0) \<and>
   js_index (formats_of ex_shifted 0) 0 \<noteq> Some linkA \<and>
   (\<exists>s' e'. getFormatBoundary ex_shifted ''core/link'' 1 1 = \<lparr>bstart = Some s', bend = Some e'\<rparr> \<and>
      0 < s') \<and>
   getFormatBoundary ex_shifted ''core/link'' 1 1 = \<lparr>bstart = Some 1, bend = Some 3\<rparr>"
proof -
  have h: "formats_at (formats ex_shifted) 1 = Some [linkA]"
    "List.find (\<lambda>g. ftype g = ''core/link'') [linkA] = Some linkA"
    by code_simp+
  have k: "indexOf [linkA] linkA = 0" "linkA \<in> set (formats_of ex_shifted 0)"
    "js_index (formats_of ex_shifted 0) 0 \<noteq> Some linkA"
    "getFormatBoundary ex_shifted ''core/link'' 1 1 = \<lparr>bstart = Some 1, bend = Some 3\<rparr>"
    by code_simp+
  from getFormatBoundary_fixed_position [OF h, where e = 1] obtain s' e' where
    r: "getFormatBoundary ex_shifted ''core/link'' 1 1 = \<lparr>bstart = Some s', bend = Some e'\<rparr>"
    and ex: "\<forall>j. j \<le> 1 \<and> js_index (formats_of ex_shifted j) (indexOf [linkA] linkA) \<noteq> Some linkA
               \<longrightarrow> j < s'"
    by blast
  from ex k(1,3) have "0 < s'" by simp
  with r have "\<exists>s' e'. getFormatBoundary ex_shifted ''core/link'' 1 1 =
      \<lparr>bstart = Some s', bend = Some e'\<rparr> \<and> 0 < s'"
    by blast
  with h k show ?thesis by simp
qed

subsection \<open>The run around the caret\<close>

text \<open>
  Claim C1, as the code has it. The caret (a collapsed selection) is strictly inside
  \<open>[s, e)\<close>, the link format \<open>f\<close> is the first \<open>core/link\<close> format in the format list of
  the character at the caret, every character of \<open>[s, e)\<close> holds \<open>f\<close> at that same
  position of its own format list, and the characters at \<open>s - 1\<close> and at \<open>e\<close> do not:
  then \<open>getFormatBoundary\<close> returns exactly \<open>{start: s, end: e}\<close>.
\<close>

theorem getFormatBoundary_positioned_run:
  assumes caret: "vstart v = vend v"
    and inside: "s < vstart v" "vstart v < e"
    and first: "List.find (\<lambda>g. ftype g = ''core/link'') (formats_of v (vstart v)) = Some f"
    and run: "run_at v f (indexOf (formats_of v (vstart v)) f) s e"
  shows "getFormatBoundary_default v ''core/link'' = \<lparr>bstart = Some s, bend = Some e\<rparr>"
proof -
  let ?c = "vstart v"
  let ?l = "formats_of v ?c"
  let ?k = "indexOf ?l f"
  from first have "?l \<noteq> []" by auto
  then have l: "formats_at (formats v) ?c = Some ?l"
    by (auto simp: formats_of_def split: option.splits)
  from run have in_run: "\<forall>x. s \<le> x \<and> x < e \<longrightarrow> same_format_at (formats v) ?k f x"
    and before: "\<not> same_format_at (formats v) ?k f (s - 1)"
    and after: "\<not> same_format_at (formats v) ?k f e"
    by (auto simp: run_at_def same_format_at_iff)
  have "walk_backwards (formats v) ?k f ?c = s - 1"
    using inside before in_run by (intro walk_backwards_eq) auto
  moreover have "walk_forwards (formats v) ?k f (?c + 1) = e"
    using inside after in_run by (intro walk_forwards_eq) auto
  ultimately show ?thesis
    using getFormatBoundary_found(1) [OF l first, where e = "vend v"] caret
    by (simp add: getFormatBoundary_default_def)
qed

theorem getFormatBoundary_positioned_run_witness:
  "vstart ex_plain = vend ex_plain \<and> 1 < vstart ex_plain \<and> vstart ex_plain < 4 \<and>
   List.find (\<lambda>g. ftype g = ''core/link'') (formats_of ex_plain (vstart ex_plain)) = Some linkA \<and>
   run_at ex_plain linkA (indexOf (formats_of ex_plain (vstart ex_plain)) linkA) 1 4 \<and>
   getFormatBoundary_default ex_plain ''core/link'' = \<lparr>bstart = Some 1, bend = Some 4\<rparr>"
proof -
  have h: "vstart ex_plain = vend ex_plain" "1 < vstart ex_plain" "vstart ex_plain < 4"
    "List.find (\<lambda>g. ftype g = ''core/link'') (formats_of ex_plain (vstart ex_plain)) = Some linkA"
    "run_at ex_plain linkA (indexOf (formats_of ex_plain (vstart ex_plain)) linkA) 1 4"
    by code_simp+
  from getFormatBoundary_positioned_run [OF h] h show ?thesis by simp
qed

text \<open>
  Without the condition on the position the claim fails. In \<open>ex_shifted\<close> the three
  characters carry one link instance and the caret is strictly inside the run, but the
  first character holds the link second in its list: the returned range is \<open>[1, 3)\<close>,
  not \<open>[0, 3)\<close>.
\<close>

theorem getFormatBoundary_shifted_run_counterexample:
  "vstart ex_shifted = vend ex_shifted \<and> 0 < vstart ex_shifted \<and> vstart ex_shifted < 3 \<and>
   ftype linkA = ''core/link'' \<and> carried_run ex_shifted linkA 0 3 \<and>
   getFormatBoundary_default ex_shifted ''core/link'' = \<lparr>bstart = Some 1, bend = Some 3\<rparr> \<and>
   getFormatBoundary_default ex_shifted ''core/link'' \<noteq> \<lparr>bstart = Some 0, bend = Some 3\<rparr>"
  by code_simp

subsection \<open>Feeding a boundary back\<close>

text \<open>
  Claim C2, as the code has it. The end argument is the index of the last character
  known to be inside the format: the function steps past it before it walks forwards.
  In a value where no character carries two formats of the target type, feeding a found
  boundary back as \<open>startIndex = start'\<close> and \<open>endIndex = end' - 1\<close> returns the same
  \<open>{start', end'}\<close>.
\<close>

theorem getFormatBoundary_idempotent_on_last_index:
  assumes wf: "one_per_type v ty"
    and res: "getFormatBoundary v ty s e = \<lparr>bstart = Some s', bend = Some e'\<rparr>"
  shows "getFormatBoundary v ty s' (e' - 1) = \<lparr>bstart = Some s', bend = Some e'\<rparr>"
proof -
  from res obtain l f where l: "formats_at (formats v) s = Some l"
    and f: "List.find (\<lambda>g. ftype g = ty) l = Some f"
    by (rule getFormatBoundary_cases)
  let ?k = "indexOf l f"
  let ?w = "walk_backwards (formats v) ?k f s"
  from getFormatBoundary_found(1) [OF l f, where e = e] getFormatBoundary_found(2) [OF l f] res
  have s': "s' = ?w + 1"
    and e': "e' = walk_forwards (formats v) ?k f (e + 1)"
    and here: "same_format_at (formats v) ?k f s"
    by simp_all
  from walk_backwards_spec [where fmts = "formats v" and k = ?k and f = f and i = s]
  have w: "?w \<le> s" "\<not> same_format_at (formats v) ?k f ?w"
    "\<forall>x. ?w < x \<and> x \<le> s \<longrightarrow> same_format_at (formats v) ?k f x"
    by blast+
  from w(1,2) here have "?w < s" by (cases "?w = s") auto
  with w(3) s' have at_s': "same_format_at (formats v) ?k f s'" by simp
  then obtain l' where l': "formats_at (formats v) s' = Some l'"
    and at: "js_index l' ?k = Some f"
    by (auto simp: same_format_at_def split: option.splits)
  from l' have "Some l' \<in> set (formats v)" by (rule formats_at_mem)
  with wf have one: "length (filter (\<lambda>g. ftype g = ty) l') \<le> 1"
    by (auto simp: one_per_type_def)
  from find_type_in [OF f] have "ftype f = ty" by simp
  from find_index_unique [OF one at this]
  have f': "List.find (\<lambda>g. ftype g = ty) l' = Some f" and k': "indexOf l' f = ?k" by simp_all
  have "walk_backwards (formats v) ?k f s' = ?w"
  proof (rule walk_backwards_eq)
    show "?w \<le> s'" using s' by simp
    show "\<not> same_format_at (formats v) ?k f ?w" by (rule w(2))
    show "\<forall>x. ?w < x \<and> x \<le> s' \<longrightarrow> same_format_at (formats v) ?k f x"
    proof (intro allI impI)
      fix x assume "?w < x \<and> x \<le> s'"
      with s' have "x = s'" by simp
      with at_s' show "same_format_at (formats v) ?k f x" by simp
    qed
  qed
  moreover from walk_forwards_spec [where fmts = "formats v" and k = ?k and f = f and i = "e + 1"] e'
  have "\<not> same_format_at (formats v) ?k f e'" by simp
  then have "walk_forwards (formats v) ?k f e' = e'"
    by (subst walk_forwards.simps) simp
  ultimately show ?thesis
    using getFormatBoundary_found(1) [OF l' f', where e = "e' - 1"] k' s' by simp
qed

theorem getFormatBoundary_idempotent_on_last_index_witness:
  "one_per_type ex_three ''core/link'' \<and>
   getFormatBoundary ex_three ''core/link'' 1 1 = \<lparr>bstart = Some 0, bend = Some 3\<rparr> \<and>
   getFormatBoundary ex_three ''core/link'' 0 (3 - 1) = \<lparr>bstart = Some 0, bend = Some 3\<rparr>"
proof -
  have h: "one_per_type ex_three ''core/link''"
    "getFormatBoundary ex_three ''core/link'' 1 1 = \<lparr>bstart = Some 0, bend = Some 3\<rparr>"
    by code_simp+
  from getFormatBoundary_idempotent_on_last_index [OF h] h show ?thesis by simp
qed

text \<open>
  Fed back unchanged, the returned end is stepped over: on \<open>ex_three\<close> the boundary of
  the caret is \<open>{0, 3}\<close>, and the call with \<open>startIndex = 0\<close>, \<open>endIndex = 3\<close> returns
  \<open>{0, 4}\<close>.
\<close>

theorem getFormatBoundary_not_idempotent_counterexample:
  "getFormatBoundary ex_three ''core/link'' 1 1 = \<lparr>bstart = Some 0, bend = Some 3\<rparr> \<and>
   getFormatBoundary ex_three ''core/link'' 0 3 = \<lparr>bstart = Some 0, bend = Some 4\<rparr> \<and>
   getFormatBoundary ex_three ''core/link'' 0 3 \<noteq> getFormatBoundary ex_three ''core/link'' 1 1"
  by code_simp

subsection \<open>Adjacent links built separately\<close>






section \<open>Properties of the link UI\<close>

lemma removeFormat_noop:
  assumes "no_format_of_type v ty"
  shows "removeFormat v ty = v"
proof -
  have "map (map_option (filter (\<lambda>g. ftype g \<noteq> ty))) (formats v) = formats v"
  proof (rule map_idI)
    fix slot assume "slot \<in> set (formats v)"
    with assms have "\<forall>g \<in> set (case slot of None \<Rightarrow> [] | Some l \<Rightarrow> l). ftype g \<noteq> ty"
      by (simp add: no_format_of_type_def)
    then show "map_option (filter (\<lambda>g. ftype g \<noteq> ty)) slot = slot"
      by (cases slot) (simp_all add: filter_id_conv)
  qed
  moreover from assms have "filter (\<lambda>g. ftype g \<noteq> ty) (activeFormats v) = activeFormats v"
    by (simp add: no_format_of_type_def filter_id_conv)
  ultimately show ?thesis by (simp add: removeFormat_def)
qed

lemma removeFormat_strips: "no_format_of_type (removeFormat v ty) ty"
  unfolding no_format_of_type_def
proof (intro conjI ballI)
  fix slot g
  assume "slot \<in> set (formats (removeFormat v ty))"
    and g: "g \<in> set (case slot of None \<Rightarrow> [] | Some l \<Rightarrow> l)"
  then obtain slot0 where "slot = map_option (filter (\<lambda>g. ftype g \<noteq> ty)) slot0"
    by (auto simp: removeFormat_def)
  with g show "ftype g \<noteq> ty" by (cases slot0) auto
next
  fix g assume "g \<in> set (activeFormats (removeFormat v ty))"
  then show "ftype g \<noteq> ty" by (simp add: removeFormat_def)
qed

lemma formats_of_removeFormat:
  "formats_of (removeFormat v ty) i = filter (\<lambda>g. ftype g \<noteq> ty) (formats_of v i)"
  by (auto simp: formats_of_def formats_at_def js_index_def removeFormat_def split: option.splits)

















subsection \<open>Removing a link\<close>

text \<open>
  Claim C9. \<open>removeLink\<close> has no failing step: it hands
  \<open>removeFormat(value, 'core/link')\<close> to \<open>onChange\<close>, calls \<open>stopAddingLink\<close> and speaks
  \<open>Link removed.\<close> once, in this order, and returns. The value it hands over has no link
  format left, keeps every other format of every character, and keeps the text. On a
  value without a link format the value handed to \<open>onChange\<close> is the value itself, and
  the announcement is still spoken once.
\<close>

theorem removeLink_strips_and_announces:
  "removeLink p =
     \<lparr>effects = [OnChange (removeFormat (value_prop p) ''core/link''), StopAddingLink,
                 Speak ''Link removed.'' ''assertive''],
      completion = Returned\<rparr> \<and>
   no_format_of_type (removeFormat (value_prop p) ''core/link'') ''core/link'' \<and>
   (\<forall>i. formats_of (removeFormat (value_prop p) ''core/link'') i =
          filter (\<lambda>g. ftype g \<noteq> ''core/link'') (formats_of (value_prop p) i)) \<and>
   vtext (removeFormat (value_prop p) ''core/link'') = vtext (value_prop p) \<and>
   (no_format_of_type (value_prop p) ''core/link'' \<longrightarrow>
      changes (effects (removeLink p)) = [value_prop p] \<and>
      spoken (effects (removeLink p)) = [(''Link removed.'', ''assertive'')])"
proof -
  have "removeLink p =
     \<lparr>effects = [OnChange (removeFormat (value_prop p) ''core/link''), StopAddingLink,
                 Speak ''Link removed.'' ''assertive''],
      completion = Returned\<rparr>"
    by (simp add: removeLink_def)
  moreover have "vtext (removeFormat (value_prop p) ''core/link'') = vtext (value_prop p)"
    by (simp add: removeFormat_def)
  ultimately show ?thesis
    by (simp add: removeFormat_strips formats_of_removeFormat removeFormat_noop)
qed

theorem removeLink_strips_and_announces_witness:
  "no_format_of_type (value_prop ex_caret) ''core/link'' \<and>
   changes (effects (removeLink ex_caret)) = [value_prop ex_caret] \<and>
   stops (effects (removeLink ex_caret)) = 1 \<and>
   spoken (effects (removeLink ex_caret)) = [(''Link removed.'', ''assertive'')]"
proof -
  have h: "no_format_of_type (value_prop ex_caret) ''core/link''"
    by code_simp
  from removeLink_strips_and_announces [of ex_caret] h
  have c: "removeLink ex_caret =
      \<lparr>effects = [OnChange (removeFormat (value_prop ex_caret) ''core/link''), StopAddingLink,
                  Speak ''Link removed.'' ''assertive''],
       completion = Returned\<rparr>"
    "changes (effects (removeLink ex_caret)) = [value_prop ex_caret]"
    "spoken (effects (removeLink ex_caret)) = [(''Link removed.'', ''assertive'')]"
    by blast+
  from c(1) have "stops (effects (removeLink ex_caret)) = 1" by simp
  with c(2,3) h show ?thesis by simp
qed

subsection \<open>Inserting a link at the caret\<close>



subsection \<open>Settings toggled before a URL exists\<close>




subsection \<open>Editing the text of a link\<close>

text \<open>
  Claim C3, at the input the submit button of the link control sends. In \<open>ex_edit\<close> the
  active link \<open>old\<close> is bold and opens in a new tab (\<open>target\<close> is \<open>_blank\<close>);
  \<open>edit_input\<close> has the URL of the link and the new text \<open>new\<close>, and no
  \<open>opensInNewTab\<close>. The committed value has \<open>new\<close> at the boundary \<open>[2, 5)\<close>, bold as
  before, and the message is \<open>Link edited.\<close>; but the link format is a new one without
  \<open>target\<close>, and \<open>stopAddingLink\<close> is not called, since \<open>true !== undefined\<close> makes the
  text edit count as a toggled setting.
\<close>

theorem onChangeLink_text_edit_loses_target:
  "isActive ex_edit \<and> activeAttributes ex_edit = attributes linkT \<and>
   getFormatBoundary_default (value_prop ex_edit) ''core/link'' = \<lparr>bstart = Some 2, bend = Some 5\<rparr> \<and>
   formats_of (value_prop ex_edit) 2 = [bold, linkT] \<and>
   get (attributes linkT) ''target'' = JStr ''_blank'' \<and>
   get (linkValue ex_edit None) ''url'' = get edit_input ''url'' \<and>
   get (linkValue ex_edit None) ''text'' = JStr ''old'' \<and>
   get edit_input ''text'' = JStr ''new'' \<and>
   get (linkValue ex_edit None) ''opensInNewTab'' = JBool True \<and>
   get edit_input ''opensInNewTab'' = Undefined \<and>
   changes (effects (onChangeLink 7 ex_edit None edit_input)) =
     [\<lparr>formats = [None, None,
          Some [bold, \<lparr>ident = 7, ftype = ''core/link'', attributes = [(''url'', JStr ''http://a.org'')]\<rparr>],
          Some [bold, \<lparr>ident = 7, ftype = ''core/link'', attributes = [(''url'', JStr ''http://a.org'')]\<rparr>],
          Some [bold, \<lparr>ident = 7, ftype = ''core/link'', attributes = [(''url'', JStr ''http://a.org'')]\<rparr>],
          None],
       vtext = ''x new.'', vstart = 5, vend = 5, activeFormats = []\<rparr>] \<and>
   get [(''url'', JStr ''http://a.org'')] ''target'' = Undefined \<and>
   stops (effects (onChangeLink 7 ex_edit None edit_input)) = 0 \<and>
   spoken (effects (onChangeLink 7 ex_edit None edit_input)) = [(''Link edited.'', ''assertive'')]"
  by code_simp

end
